theory Spec2Isabelle
  imports Main "HOL-Library.Word"
begin

unbundle bit_operations_syntax

section \<open>The AOK remote protocol (aok\_protocol.h, aok\_protocol.cpp)\<close>

subsection \<open>Protocol constants\<close>

definition AOK_PACKET_SIZE :: nat where "AOK_PACKET_SIZE = 64"
definition AOK_HEADER :: "8 word" where "AOK_HEADER = 0xa3"
definition AOK_PRE_POST_ZEROS :: nat where "AOK_PRE_POST_ZEROS = 8 * 2"
definition AOK_PACKET_PREFIX_MARK :: nat where "AOK_PACKET_PREFIX_MARK = 5000"
definition AOK_PACKET_SUFFIX_SPACE :: nat where "AOK_PACKET_SUFFIX_SPACE = 5000"
definition AOK_ONE_MARK :: nat where "AOK_ONE_MARK = 600"
definition AOK_ONE_SPACE :: nat where "AOK_ONE_SPACE = 275"
definition AOK_ZERO_MARK :: nat where "AOK_ZERO_MARK = 290"
definition AOK_ZERO_SPACE :: nat where "AOK_ZERO_SPACE = 600"
definition AOK_REPEATS :: nat where "AOK_REPEATS = 6"

lemmas AOK_consts =
  AOK_PACKET_SIZE_def AOK_HEADER_def AOK_PRE_POST_ZEROS_def AOK_PACKET_PREFIX_MARK_def
  AOK_PACKET_SUFFIX_SPACE_def AOK_ONE_MARK_def AOK_ONE_SPACE_def AOK_ZERO_MARK_def
  AOK_ZERO_SPACE_def AOK_REPEATS_def

subsection \<open>Packets\<close>

text \<open>
  \<open>enum AOKCommand : uint8_t\<close> and \<open>enum AOKChannel : uint16_t\<close> are filled by
  \<open>static_cast\<close> from arbitrary integers (in \<open>decode_packet\<close> and in \<open>AOKAction::encode\<close>),
  so a field holds any value of its underlying type: the enumerators are named constants
  of that type.
\<close>

definition COMMAND_UP :: "8 word" where "COMMAND_UP = 0x0b"
definition COMMAND_DOWN :: "8 word" where "COMMAND_DOWN = 0x43"
definition COMMAND_STOP :: "8 word" where "COMMAND_STOP = 0x23"
definition COMMAND_PROGRAM :: "8 word" where "COMMAND_PROGRAM = 0x53"
definition COMMAND_RELEASE :: "8 word" where "COMMAND_RELEASE = 0x24"

definition CHANNEL_1 :: "16 word" where "CHANNEL_1 = 0x0100"

lemmas AOK_commands =
  COMMAND_UP_def COMMAND_DOWN_def COMMAND_STOP_def COMMAND_PROGRAM_def COMMAND_RELEASE_def

record AOKData =
  device :: "32 word"
  channel :: "16 word"
  command :: "8 word"

text \<open>
  \<open>AOKData::checksum\<close>. The bytes \<open>device_ptr[0..2]\<close> and \<open>channel_ptr[0..1]\<close> are read
  through a \<open>uint8_t\<close> pointer; on the little-endian targets of the firmware they are the
  three low bytes of \<open>device\<close> and the two bytes of \<open>channel\<close>. The sum is kept in a
  \<open>uint16_t\<close> (six bytes never exceed it) and cut to its low byte.
\<close>

definition device_byte :: "AOKData \<Rightarrow> nat \<Rightarrow> 8 word" where
  "device_byte d k = ucast (drop_bit (8 * k) (device d))"

definition channel_byte :: "AOKData \<Rightarrow> nat \<Rightarrow> 8 word" where
  "channel_byte d k = ucast (drop_bit (8 * k) (channel d))"

definition checksum :: "AOKData \<Rightarrow> 8 word" where
  "checksum d =
     (let sum0 = (0 :: 16 word);
          sum1 = sum0 + (ucast (device_byte d 0) + ucast (device_byte d 1) + ucast (device_byte d 2));
          sum2 = sum1 + (ucast (channel_byte d 0) + ucast (channel_byte d 1));
          sum3 = sum2 + ucast (command d)
      in ucast (sum3 AND 0xFF))"

text \<open>\<open>AOKData::operator==\<close>.\<close>

definition data_eq :: "AOKData \<Rightarrow> AOKData \<Rightarrow> bool" where
  "data_eq lhs rhs \<longleftrightarrow>
     device lhs = device rhs \<and> channel lhs = channel rhs \<and> command lhs = command rhs"

text \<open>\<open>AOKProtocol::packet_bits\<close>: every field is widened to 64 bits, shifted and or-ed in.\<close>

definition packet_bits :: "AOKData \<Rightarrow> 64 word" where
  "packet_bits d =
     (let bits0 = (0 :: 64 word);
          bits1 = bits0 OR push_bit 56 (ucast AOK_HEADER);
          bits2 = bits1 OR push_bit 32 (ucast (device d));
          bits3 = bits2 OR push_bit 16 (ucast (channel d));
          bits4 = bits3 OR push_bit 8 (ucast (command d));
          bits5 = bits4 OR ucast (checksum d)
      in bits5)"

subsection \<open>The pulse sink\<close>

text \<open>
  Modelled from the spec: the pulse sink \<open>RemoteTransmitData\<close> (its header
  \<open>remote_base.h\<close> is not among the sources). It accepts a carrier-frequency setting, a
  capacity hint, and an ordered sequence of (mark, space) pulse pairs. The raw sequence
  holds one duration per pulse, a mark as a positive and a space as a negative number, so
  that the two phases stay apart in the raw data handed to the pulse source.
\<close>

record RemoteTransmitData =
  carrier_frequency :: nat
  tx_data :: "int list"

definition set_carrier_frequency :: "RemoteTransmitData \<Rightarrow> nat \<Rightarrow> RemoteTransmitData" where
  "set_carrier_frequency dst f = dst\<lparr>carrier_frequency := f\<rparr>"

definition reserve :: "RemoteTransmitData \<Rightarrow> nat \<Rightarrow> RemoteTransmitData" where
  "reserve dst n = dst"

definition item :: "RemoteTransmitData \<Rightarrow> nat \<Rightarrow> nat \<Rightarrow> RemoteTransmitData" where
  "item dst mark space = dst\<lparr>tx_data := tx_data dst @ [int mark, - int space]\<rparr>"

subsection \<open>Transmit encoder\<close>

text \<open>The bit loop of \<open>AOKProtocol::encode_packet\<close>, \<open>i\<close> running from its argument to 63.\<close>

function encode_packet_loop ::
  "nat \<Rightarrow> 64 word \<Rightarrow> RemoteTransmitData \<Rightarrow> RemoteTransmitData" where
  "encode_packet_loop i bits dst =
     (if i < AOK_PACKET_SIZE then
        encode_packet_loop (i + 1) bits
          (if bit bits (AOK_PACKET_SIZE - i - 1) then item dst AOK_ONE_MARK AOK_ONE_SPACE
           else item dst AOK_ZERO_MARK AOK_ZERO_SPACE)
      else dst)"
  by pat_completeness auto
termination
  by (relation "measure (\<lambda>(i, bits, dst). AOK_PACKET_SIZE - i)") auto

declare encode_packet_loop.simps [simp del]

definition encode_packet :: "RemoteTransmitData \<Rightarrow> AOKData \<Rightarrow> RemoteTransmitData" where
  "encode_packet dst d =
     (let dst1 = item dst AOK_PACKET_PREFIX_MARK AOK_ZERO_SPACE;
          bits = packet_bits d;
          dst2 = encode_packet_loop 0 bits dst1
      in item dst2 AOK_ONE_MARK AOK_PACKET_SUFFIX_SPACE)"

text \<open>The preamble and postamble loops of \<open>AOKProtocol::encode\<close>.\<close>

function encode_zeros :: "nat \<Rightarrow> RemoteTransmitData \<Rightarrow> RemoteTransmitData" where
  "encode_zeros b dst =
     (if b < AOK_PRE_POST_ZEROS then encode_zeros (b + 1) (item dst AOK_ZERO_MARK AOK_ZERO_SPACE)
      else dst)"
  by pat_completeness auto
termination
  by (relation "measure (\<lambda>(b, dst). AOK_PRE_POST_ZEROS - b)") auto

declare encode_zeros.simps [simp del]

text \<open>The repeat loops of \<open>AOKProtocol::encode\<close>.\<close>

function encode_repeats :: "nat \<Rightarrow> RemoteTransmitData \<Rightarrow> AOKData \<Rightarrow> RemoteTransmitData" where
  "encode_repeats r dst d =
     (if r < AOK_REPEATS then encode_repeats (r + 1) (encode_packet dst d) d else dst)"
  by pat_completeness auto
termination
  by (relation "measure (\<lambda>(r, dst, d). AOK_REPEATS - r)") auto

declare encode_repeats.simps [simp del]

definition encode :: "RemoteTransmitData \<Rightarrow> AOKData \<Rightarrow> RemoteTransmitData" where
  "encode dst d =
     (let dst1 = set_carrier_frequency dst 0;
          command_count = (if command d = COMMAND_UP \<or> command d = COMMAND_DOWN then 2 else 1 :: nat);
          data_size = (AOK_PRE_POST_ZEROS
                        + (((1 + AOK_PACKET_SIZE + 1) * command_count) * AOK_REPEATS)
                        + AOK_PRE_POST_ZEROS) * 2;
          dst2 = reserve dst1 data_size;
          dst3 = encode_zeros 0 dst2;
          dst4 = encode_repeats 0 dst3 d;
          dst5 = (if command d = COMMAND_UP \<or> command d = COMMAND_DOWN then
                    (let data_release = d\<lparr>command := COMMAND_RELEASE\<rparr>
                     in encode_repeats 0 dst4 data_release)
                  else dst4)
      in encode_zeros 0 dst5)"

subsection \<open>The pulse source\<close>

text \<open>
  Modelled from the spec: the pulse source \<open>RemoteReceiveData\<close> (its header
  \<open>remote_base.h\<close> is not among the sources). It exposes the raw pulse durations, their
  count, a read cursor, \<open>advance\<close>, \<open>peek\<close>, and match operations that compare a claimed
  (mark, space) pair against the live data within an implementation-defined tolerance,
  optionally at a forward offset. The tolerance is left open: the source carries the two
  comparisons, \<open>mark_within\<close> and \<open>space_within\<close>, from a claimed duration and a raw
  value to a verdict. A comparison at a position past the end of the data fails, there
  being no live data to compare with. The size, the cursor and every offset count raw
  pulses, as the decoder uses them: it advances by 1 over a single stray pulse and by 2
  over one (mark, space) item. The cursor is a \<open>uint32_t\<close> that no stream is long enough
  to wrap, and is a \<open>nat\<close> here.
\<close>

record RemoteReceiveData =
  rx_data :: "int list"
  index :: nat
  mark_within :: "nat \<Rightarrow> int \<Rightarrow> bool"
  space_within :: "nat \<Rightarrow> int \<Rightarrow> bool"

definition get_index :: "RemoteReceiveData \<Rightarrow> nat" where
  "get_index src = index src"

definition size_rx :: "RemoteReceiveData \<Rightarrow> nat" where
  "size_rx src = length (rx_data src)"

definition is_valid :: "RemoteReceiveData \<Rightarrow> nat \<Rightarrow> bool" where
  "is_valid src offset \<longleftrightarrow> index src + offset < length (rx_data src)"

definition advance :: "RemoteReceiveData \<Rightarrow> nat \<Rightarrow> RemoteReceiveData" where
  "advance src amount = src\<lparr>index := index src + amount\<rparr>"

definition peek_mark :: "RemoteReceiveData \<Rightarrow> nat \<Rightarrow> nat \<Rightarrow> bool" where
  "peek_mark src len offset \<longleftrightarrow>
     is_valid src offset \<and> mark_within src len (rx_data src ! (index src + offset))"

definition peek_space :: "RemoteReceiveData \<Rightarrow> nat \<Rightarrow> nat \<Rightarrow> bool" where
  "peek_space src len offset \<longleftrightarrow>
     is_valid src offset \<and> space_within src len (rx_data src ! (index src + offset))"

definition peek_item :: "RemoteReceiveData \<Rightarrow> nat \<Rightarrow> nat \<Rightarrow> nat \<Rightarrow> bool" where
  "peek_item src mark space offset \<longleftrightarrow>
     peek_space src space (offset + 1) \<and> peek_mark src mark offset"

definition expect_item :: "RemoteReceiveData \<Rightarrow> nat \<Rightarrow> nat \<Rightarrow> bool \<times> RemoteReceiveData" where
  "expect_item src mark space =
     (if \<not> peek_item src mark space 0 then (False, src) else (True, advance src 2))"

subsection \<open>Receive decoder\<close>

text \<open>
  \<open>AOKProtocol::decode_packet\<close> in its two halves. The first captures the pulses of one
  frame into 64 bits (prefix, bit loop, suffix). The source is passed by reference, so a
  failed frame leaves the cursor where the capture stopped: the cursor is returned with
  the outcome.
\<close>

function decode_packet_loop ::
  "nat \<Rightarrow> RemoteReceiveData \<Rightarrow> 64 word \<Rightarrow> 64 word option \<times> RemoteReceiveData" where
  "decode_packet_loop i src bits =
     (if i < AOK_PACKET_SIZE then
        (let (one, src1) = expect_item src AOK_ONE_MARK AOK_ONE_SPACE in
         if one then decode_packet_loop (i + 1) src1 (set_bit (AOK_PACKET_SIZE - i - 1) bits)
         else
           (let (zero, src2) = expect_item src1 AOK_ZERO_MARK AOK_ZERO_SPACE in
            if zero then decode_packet_loop (i + 1) src2 (unset_bit (AOK_PACKET_SIZE - i - 1) bits)
            else (None, src2)))
      else (Some bits, src))"
  by pat_completeness auto
termination
  by (relation "measure (\<lambda>(i, src, bits). AOK_PACKET_SIZE - i)") auto

declare decode_packet_loop.simps [simp del]

definition capture_frame :: "RemoteReceiveData \<Rightarrow> 64 word option \<times> RemoteReceiveData" where
  "capture_frame src =
     (let (prefix, src1) = expect_item src AOK_PACKET_PREFIX_MARK AOK_ZERO_SPACE in
      if \<not> prefix then (None, src1)
      else
        (case decode_packet_loop 0 src1 0 of
           (None, src2) \<Rightarrow> (None, src2)
         | (Some bits, src2) \<Rightarrow>
             (let (suffix, src3) = expect_item src2 AOK_ONE_MARK AOK_PACKET_SUFFIX_SPACE in
              if \<not> suffix then (None, src3)
              else (Some bits, src3))))"

text \<open>
  The second half, from \<open>bits.to_ullong()\<close> on: header check, field extraction, checksum
  check.
\<close>

definition extract_fields :: "64 word \<Rightarrow> AOKData" where
  "extract_fields ulbits =
     \<lparr>device = ucast (drop_bit 32 ulbits AND 0xffffff),
      channel = ucast (drop_bit 16 ulbits AND 0xffff),
      command = ucast (drop_bit 8 ulbits AND 0xff)\<rparr>"

definition decode_ulbits :: "64 word \<Rightarrow> AOKData option" where
  "decode_ulbits ulbits =
     (if (ucast (drop_bit 56 ulbits) :: 8 word) \<noteq> AOK_HEADER then None
      else
        (let d = extract_fields ulbits
         in if checksum d \<noteq> ucast (ulbits AND 0xff) then None else Some d))"

definition decode_packet :: "RemoteReceiveData \<Rightarrow> AOKData option \<times> RemoteReceiveData" where
  "decode_packet src =
     (case capture_frame src of
        (None, src1) \<Rightarrow> (None, src1)
      | (Some bits, src1) \<Rightarrow> (decode_ulbits bits, src1))"

text \<open>
  \<open>AOKProtocol::decode\<close>. \<open>min_size\<close> is a \<open>uint8_t\<close> holding 132. Both cursor
  comparisons subtract \<open>min_size\<close> from the size; they are only reached behind the sanity
  check, where the size is at least 824, so the difference is never negative and is
  written over \<open>int\<close>. The counter \<open>skipped\<close> feeds the log only and is left out.
\<close>

definition min_size :: nat where
  "min_size = 2 + (AOK_PACKET_SIZE * 2) + 2"

text \<open>
  The inner loop: skip data until a packet prefix is at the cursor. \<open>None\<close> is the early
  \<open>return {}\<close> of the whole decode from inside the loop.
\<close>

function decode_skip :: "RemoteReceiveData \<Rightarrow> RemoteReceiveData option" where
  "decode_skip src =
     (if \<not> peek_item src AOK_PACKET_PREFIX_MARK AOK_ZERO_SPACE 0 then
        (let src1 = (if peek_item src AOK_PACKET_PREFIX_MARK AOK_ZERO_SPACE 1 then advance src 1
                     else advance src 2)
         in if int (get_index src1) > int (size_rx src1) - int min_size then None
            else decode_skip src1)
      else Some src)"
  by pat_completeness auto
termination
  by (relation "measure (\<lambda>src. size_rx src - index src)")
    (auto simp: advance_def get_index_def size_rx_def min_size_def AOK_PACKET_SIZE_def)

declare decode_skip.simps [simp del]

lemma decode_skip_Some:
  "decode_skip src = Some src1 \<Longrightarrow>
     rx_data src1 = rx_data src \<and> index src \<le> index src1 \<and>
     peek_item src1 AOK_PACKET_PREFIX_MARK AOK_ZERO_SPACE 0"
proof (induction src rule: decode_skip.induct)
  case (1 src)
  show ?case
  proof (cases "peek_item src AOK_PACKET_PREFIX_MARK AOK_ZERO_SPACE 0")
    case True
    with "1.prems" show ?thesis by (subst (asm) decode_skip.simps) simp
  next
    case False
    define nxt where "nxt = (if peek_item src AOK_PACKET_PREFIX_MARK AOK_ZERO_SPACE 1
                             then advance src 1 else advance src 2)"
    have "decode_skip src = (if int (size_rx nxt) - int min_size < int (get_index nxt) then None
                             else decode_skip nxt)"
      by (subst decode_skip.simps, unfold nxt_def Let_def, simp add: False)
    with "1.prems" have cont: "\<not> int (size_rx nxt) - int min_size < int (get_index nxt)"
      and rec: "decode_skip nxt = Some src1"
      by (simp_all split: if_splits)
    have "rx_data src1 = rx_data nxt \<and> index nxt \<le> index src1 \<and>
          peek_item src1 AOK_PACKET_PREFIX_MARK AOK_ZERO_SPACE 0"
      using "1.IH" [OF False nxt_def cont rec] .
    moreover have "rx_data nxt = rx_data src" "index src \<le> index nxt"
      by (simp_all add: nxt_def advance_def)
    ultimately show ?thesis by simp
  qed
qed

lemma expect_item_cursor:
  "expect_item src m s = (ok, src1) \<Longrightarrow>
     rx_data src1 = rx_data src \<and> index src \<le> index src1"
  by (auto simp: expect_item_def advance_def split: if_splits)

lemma decode_packet_loop_cursor:
  "decode_packet_loop i src bits = (r, src1) \<Longrightarrow>
     rx_data src1 = rx_data src \<and> index src \<le> index src1"
proof (induction i src bits rule: decode_packet_loop.induct)
  case (1 i src bits)
  show ?case
  proof (cases "i < AOK_PACKET_SIZE")
    case False
    with "1.prems" show ?thesis by (subst (asm) decode_packet_loop.simps) simp
  next
    case True
    note step = "1.prems" [unfolded decode_packet_loop.simps [of i src bits]]
    obtain one s1 where e1: "expect_item src AOK_ONE_MARK AOK_ONE_SPACE = (one, s1)"
      by (cases "expect_item src AOK_ONE_MARK AOK_ONE_SPACE")
    obtain zero s2 where e2: "expect_item s1 AOK_ZERO_MARK AOK_ZERO_SPACE = (zero, s2)"
      by (cases "expect_item s1 AOK_ZERO_MARK AOK_ZERO_SPACE")
    note c1 = expect_item_cursor [OF e1] and c2 = expect_item_cursor [OF e2]
    show ?thesis
    proof (cases one)
      case True
      with \<open>i < AOK_PACKET_SIZE\<close> e1 step
      have "decode_packet_loop (i + 1) s1 (set_bit (AOK_PACKET_SIZE - i - 1) bits) = (r, src1)"
        by simp
      from "1.IH"(1) [OF \<open>i < AOK_PACKET_SIZE\<close> e1 [symmetric] refl True this] c1
      show ?thesis by simp
    next
      case False
      note nonone = this
      show ?thesis
      proof (cases zero)
        case True
        with \<open>i < AOK_PACKET_SIZE\<close> e1 e2 nonone step
        have "decode_packet_loop (i + 1) s2 (unset_bit (AOK_PACKET_SIZE - i - 1) bits) = (r, src1)"
          by simp
        from "1.IH"(2) [OF \<open>i < AOK_PACKET_SIZE\<close> e1 [symmetric] refl nonone e2 [symmetric] refl True this]
          c1 c2
        show ?thesis by simp
      next
        case False
        with \<open>i < AOK_PACKET_SIZE\<close> e1 e2 nonone step have "src1 = s2" by simp
        with c1 c2 show ?thesis by simp
      qed
    qed
  qed
qed

lemma capture_frame_cursor:
  assumes "capture_frame src = (r, src1)"
  shows "rx_data src1 = rx_data src \<and> index src \<le> index src1"
proof -
  obtain p s1 where e1: "expect_item src AOK_PACKET_PREFIX_MARK AOK_ZERO_SPACE = (p, s1)"
    by (cases "expect_item src AOK_PACKET_PREFIX_MARK AOK_ZERO_SPACE")
  obtain b s2 where l: "decode_packet_loop 0 s1 0 = (b, s2)"
    by (cases "decode_packet_loop 0 s1 0")
  obtain q s3 where e3: "expect_item s2 AOK_ONE_MARK AOK_PACKET_SUFFIX_SPACE = (q, s3)"
    by (cases "expect_item s2 AOK_ONE_MARK AOK_PACKET_SUFFIX_SPACE")
  note c1 = expect_item_cursor [OF e1] and c2 = decode_packet_loop_cursor [OF l]
    and c3 = expect_item_cursor [OF e3]
  from assms e1 l e3 have "src1 = s1 \<or> src1 = s2 \<or> src1 = s3"
    by (auto simp: capture_frame_def split: if_splits option.splits)
  with c1 c2 c3 show ?thesis by auto
qed

lemma capture_frame_progress:
  assumes "peek_item src AOK_PACKET_PREFIX_MARK AOK_ZERO_SPACE 0"
    and "capture_frame src = (r, src1)"
  shows "rx_data src1 = rx_data src \<and> index src + 2 \<le> index src1"
proof -
  from assms(1) have e1: "expect_item src AOK_PACKET_PREFIX_MARK AOK_ZERO_SPACE = (True, advance src 2)"
    by (simp add: expect_item_def)
  obtain b s2 where l: "decode_packet_loop 0 (advance src 2) 0 = (b, s2)"
    by (cases "decode_packet_loop 0 (advance src 2) 0")
  obtain q s3 where e3: "expect_item s2 AOK_ONE_MARK AOK_PACKET_SUFFIX_SPACE = (q, s3)"
    by (cases "expect_item s2 AOK_ONE_MARK AOK_PACKET_SUFFIX_SPACE")
  note c2 = decode_packet_loop_cursor [OF l] and c3 = expect_item_cursor [OF e3]
  from assms(2) e1 l e3 have "src1 = s2 \<or> src1 = s3"
    by (auto simp: capture_frame_def split: if_splits option.splits)
  with c2 c3 show ?thesis by (auto simp: advance_def)
qed

lemma decode_packet_progress:
  assumes "peek_item src AOK_PACKET_PREFIX_MARK AOK_ZERO_SPACE 0"
    and "decode_packet src = (r, src1)"
  shows "rx_data src1 = rx_data src \<and> index src + 2 \<le> index src1"
proof -
  obtain b s where c: "capture_frame src = (b, s)"
    by (cases "capture_frame src")
  with assms(2) have "src1 = s"
    by (auto simp: decode_packet_def split: option.splits)
  with capture_frame_progress [OF assms(1) c] show ?thesis by simp
qed

text \<open>
  The outer loop, with the vector \<open>packets\<close> as a list. \<open>None\<close> again is the early
  \<open>return {}\<close>; \<open>Some packets\<close> is the loop left through its condition.
\<close>

function decode_scan :: "RemoteReceiveData \<Rightarrow> AOKData list \<Rightarrow> AOKData list option" where
  "decode_scan src packets =
     (if int (get_index src) < int (size_rx src) - int min_size then
        (case decode_skip src of
           None \<Rightarrow> None
         | Some src1 \<Rightarrow>
             (let (packet, src2) = decode_packet src1 in
              decode_scan src2
                (case packet of Some p \<Rightarrow> packets @ [p] | None \<Rightarrow> packets)))
      else Some packets)"
  by pat_completeness auto
termination
proof (relation "measure (\<lambda>(src, packets). size_rx src - index src)", goal_cases)
  case 1
  show ?case by simp
next
  case (2 src packets src1 x packet src2)
  then have c: "int (get_index src) < int (size_rx src) - int min_size"
    and sk: "decode_skip src = Some src1" and dp: "decode_packet src1 = (packet, src2)"
    by simp_all
  from decode_skip_Some [OF sk] have s: "rx_data src1 = rx_data src" "index src \<le> index src1"
    "peek_item src1 AOK_PACKET_PREFIX_MARK AOK_ZERO_SPACE 0"
    by simp_all
  from decode_packet_progress [OF s(3) dp] s c
  show ?case by (auto simp: size_rx_def get_index_def)
qed

declare decode_scan.simps [simp del]

definition decode :: "RemoteReceiveData \<Rightarrow> AOKData option" where
  "decode src =
     (if size_rx src < (min_size * AOK_REPEATS) + (AOK_PRE_POST_ZEROS * 2) then None
      else
        (case decode_scan src [] of
           None \<Rightarrow> None
         | Some packets \<Rightarrow> if packets = [] then None else Some (hd packets)))"

section \<open>Notions for the statements\<close>

text \<open>
  The raw pulses of one item, of the 64 bit items of a frame from bit \<open>i\<close> on, of a whole
  frame (prefix, bits, suffix), of a preamble or postamble, and of one burst of repeats.
\<close>

definition pulses :: "nat \<Rightarrow> nat \<Rightarrow> int list" where
  "pulses mark space = [int mark, - int space]"

definition frame_bits :: "nat \<Rightarrow> 64 word \<Rightarrow> int list" where
  "frame_bits i w =
     concat (map (\<lambda>k. if bit w (AOK_PACKET_SIZE - k - 1) then pulses AOK_ONE_MARK AOK_ONE_SPACE
                       else pulses AOK_ZERO_MARK AOK_ZERO_SPACE) [i..<AOK_PACKET_SIZE])"

definition frame_pulses :: "64 word \<Rightarrow> int list" where
  "frame_pulses w =
     pulses AOK_PACKET_PREFIX_MARK AOK_ZERO_SPACE @ frame_bits 0 w
       @ pulses AOK_ONE_MARK AOK_PACKET_SUFFIX_SPACE"

definition amble :: "int list" where
  "amble = concat (replicate AOK_PRE_POST_ZEROS (pulses AOK_ZERO_MARK AOK_ZERO_SPACE))"

definition burst :: "AOKData \<Rightarrow> int list" where
  "burst d = concat (replicate AOK_REPEATS (frame_pulses (packet_bits d)))"

text \<open>A fresh sink, and the frame \<open>encode_packet\<close> emits into it.\<close>

definition empty_sink :: RemoteTransmitData where
  "empty_sink = \<lparr>carrier_frequency = 0, tx_data = []\<rparr>"

definition frame_of :: "AOKData \<Rightarrow> int list" where
  "frame_of d = tx_data (encode_packet empty_sink d)"

text \<open>Noise: items of 1000 microseconds each way, which match no symbol of the protocol.\<close>

definition noise :: "nat \<Rightarrow> int list" where
  "noise k = concat (replicate k (pulses 1000 1000))"

text \<open>
  What lies ahead of the cursor, and what the decoder needs of the tolerance to read the
  encoder's own pulses back: each symbol is accepted at its exact timing, the prefix mark
  is taken neither for a zero mark nor for a space, and a zero item is not taken for a one
  item.
\<close>

definition remaining :: "RemoteReceiveData \<Rightarrow> int list" where
  "remaining src = drop (index src) (rx_data src)"

definition tolerance_ok :: "RemoteReceiveData \<Rightarrow> bool" where
  "tolerance_ok src \<longleftrightarrow>
     mark_within src AOK_PACKET_PREFIX_MARK (int AOK_PACKET_PREFIX_MARK)
     \<and> space_within src AOK_ZERO_SPACE (- int AOK_ZERO_SPACE)
     \<and> mark_within src AOK_ONE_MARK (int AOK_ONE_MARK)
     \<and> space_within src AOK_ONE_SPACE (- int AOK_ONE_SPACE)
     \<and> mark_within src AOK_ZERO_MARK (int AOK_ZERO_MARK)
     \<and> space_within src AOK_PACKET_SUFFIX_SPACE (- int AOK_PACKET_SUFFIX_SPACE)
     \<and> \<not> mark_within src AOK_PACKET_PREFIX_MARK (int AOK_ZERO_MARK)
     \<and> \<not> mark_within src AOK_PACKET_PREFIX_MARK (- int AOK_ZERO_SPACE)
     \<and> \<not> (mark_within src AOK_ONE_MARK (int AOK_ZERO_MARK)
          \<and> space_within src AOK_ONE_SPACE (- int AOK_ZERO_SPACE))"

text \<open>
  One concrete tolerance, a percentage of the claimed duration, for running the decoder
  on concrete streams: a mark is a non-negative raw value, a space a non-positive one.
  \<open>receive\<close> is a source at cursor 0 over the given raw pulses.
\<close>

definition within_percent :: "nat \<Rightarrow> nat \<Rightarrow> int \<Rightarrow> bool" where
  "within_percent tol len v \<longleftrightarrow>
     (100 - int tol) * int len div 100 \<le> v \<and> v \<le> (100 + int tol) * int len div 100"

definition percent_mark :: "nat \<Rightarrow> nat \<Rightarrow> int \<Rightarrow> bool" where
  "percent_mark tol len v \<longleftrightarrow> 0 \<le> v \<and> within_percent tol len v"

definition percent_space :: "nat \<Rightarrow> nat \<Rightarrow> int \<Rightarrow> bool" where
  "percent_space tol len v \<longleftrightarrow> v \<le> 0 \<and> within_percent tol len (- v)"

definition receive :: "nat \<Rightarrow> int list \<Rightarrow> RemoteReceiveData" where
  "receive tol raw =
     \<lparr>rx_data = raw, index = 0, mark_within = percent_mark tol, space_within = percent_space tol\<rparr>"

text \<open>
  The value of the bit loop of \<open>decode_packet\<close> after \<open>i\<close> rounds over the pulses of
  \<open>w\<close>: the bits still to come are those of \<open>w\<close>, the others those of the accumulator.
\<close>

definition merge_bits :: "nat \<Rightarrow> 64 word \<Rightarrow> 64 word \<Rightarrow> 64 word" where
  "merge_bits i acc w = take_bit (64 - i) w OR (acc AND NOT (mask (64 - i)))"

section \<open>Properties\<close>

subsection \<open>What the encoder emits\<close>

lemma tx_data_item: "tx_data (item dst m s) = tx_data dst @ pulses m s"
  by (simp add: item_def pulses_def)

lemma frame_bits_step:
  "i < AOK_PACKET_SIZE \<Longrightarrow>
     frame_bits i w =
       (if bit w (AOK_PACKET_SIZE - i - 1) then pulses AOK_ONE_MARK AOK_ONE_SPACE
        else pulses AOK_ZERO_MARK AOK_ZERO_SPACE) @ frame_bits (i + 1) w"
  by (simp add: frame_bits_def upt_conv_Cons)

lemma frame_bits_done: "\<not> i < AOK_PACKET_SIZE \<Longrightarrow> frame_bits i w = []"
  by (simp add: frame_bits_def)

lemma tx_data_encode_packet_loop:
  "tx_data (encode_packet_loop i w dst) = tx_data dst @ frame_bits i w"
proof (induction i w dst rule: encode_packet_loop.induct)
  case (1 i bits dst)
  show ?case
  proof (cases "i < AOK_PACKET_SIZE")
    case True
    then show ?thesis
      using "1.IH" [OF True]
      by (subst encode_packet_loop.simps) (simp add: frame_bits_step tx_data_item)
  next
    case False
    then show ?thesis
      by (subst encode_packet_loop.simps) (simp add: frame_bits_done)
  qed
qed

lemma tx_data_encode_packet:
  "tx_data (encode_packet dst d) = tx_data dst @ frame_pulses (packet_bits d)"
  by (simp add: encode_packet_def tx_data_encode_packet_loop tx_data_item frame_pulses_def)

lemma tx_data_encode_zeros:
  "tx_data (encode_zeros b dst) =
     tx_data dst @ concat (replicate (AOK_PRE_POST_ZEROS - b) (pulses AOK_ZERO_MARK AOK_ZERO_SPACE))"
proof (induction b dst rule: encode_zeros.induct)
  case (1 b dst)
  show ?case
  proof (cases "b < AOK_PRE_POST_ZEROS")
    case True
    then have "AOK_PRE_POST_ZEROS - b = Suc (AOK_PRE_POST_ZEROS - (b + 1))" by simp
    then show ?thesis
      using "1.IH" [OF True]
      by (subst encode_zeros.simps) (simp add: True tx_data_item)
  next
    case False
    then show ?thesis by (subst encode_zeros.simps) simp
  qed
qed

lemma tx_data_encode_repeats:
  "tx_data (encode_repeats r dst d) =
     tx_data dst @ concat (replicate (AOK_REPEATS - r) (frame_pulses (packet_bits d)))"
proof (induction r dst d rule: encode_repeats.induct)
  case (1 r dst d)
  show ?case
  proof (cases "r < AOK_REPEATS")
    case True
    then have "AOK_REPEATS - r = Suc (AOK_REPEATS - (r + 1))" by simp
    then show ?thesis
      using "1.IH" [OF True]
      by (subst encode_repeats.simps) (simp add: True tx_data_encode_packet)
  next
    case False
    then show ?thesis by (subst encode_repeats.simps) simp
  qed
qed

lemma tx_data_encode:
  "tx_data (encode dst d) =
     tx_data dst @ amble @ burst d
       @ (if command d = COMMAND_UP \<or> command d = COMMAND_DOWN
          then burst (d\<lparr>command := COMMAND_RELEASE\<rparr>) else [])
       @ amble"
  by (simp add: encode_def Let_def tx_data_encode_zeros tx_data_encode_repeats amble_def burst_def
      set_carrier_frequency_def reserve_def)

lemma frame_of_pulses: "frame_of d = frame_pulses (packet_bits d)"
  by (simp add: frame_of_def tx_data_encode_packet empty_sink_def)

subsection \<open>Packing and unpacking the 64 bits\<close>

lemma device_bits:
  assumes "device d < 2 ^ 24" and "bit (device d) n"
  shows "n < 24"
proof -
  from assms(1) have "device d AND mask 24 = device d" by (rule less_mask_eq)
  then have "bit (device d AND mask 24) n" using assms(2) by simp
  then show ?thesis by (simp add: bit_and_iff bit_mask_iff)
qed

lemma mask_numerals:
  "(0xffffff :: 64 word) = mask 24" "(0xffff :: 64 word) = mask 16" "(0xff :: 64 word) = mask 8"
  "(0xFF :: 16 word) = mask 8"
  by (simp_all add: mask_eq_exp_minus_1)

lemma header_bits:
  assumes "device d < 2 ^ 24"
  shows "(ucast (drop_bit 56 (packet_bits d)) :: 8 word) = AOK_HEADER"
  apply (simp add: packet_bits_def)
  apply (rule bit_word_eqI)
  using device_bits [OF assms]
  apply (auto simp: bit_simps dest: bit_imp_le_length)
  done

lemma extract_packet_bits:
  assumes "device d < 2 ^ 24"
  shows "extract_fields (packet_bits d) = d"
proof -
  have "(ucast (drop_bit 32 (packet_bits d) AND mask 24) :: 32 word) = device d"
    apply (simp add: packet_bits_def)
    apply (rule bit_word_eqI)
    using device_bits [OF assms]
    apply (auto simp: bit_simps dest: bit_imp_le_length)
    done
  moreover have "(ucast (drop_bit 16 (packet_bits d) AND mask 16) :: 16 word) = channel d"
    apply (simp add: packet_bits_def)
    apply (rule bit_word_eqI)
    apply (auto simp: bit_simps dest: bit_imp_le_length)
    done
  moreover have "(ucast (drop_bit 8 (packet_bits d) AND mask 8) :: 8 word) = command d"
    apply (simp add: packet_bits_def)
    apply (rule bit_word_eqI)
    apply (auto simp: bit_simps dest: bit_imp_le_length)
    done
  ultimately show ?thesis
    by (simp add: extract_fields_def mask_numerals)
qed

lemma low_byte_packet_bits:
  "(ucast (packet_bits d AND 0xff) :: 8 word) = checksum d"
  apply (simp add: packet_bits_def mask_numerals)
  apply (rule bit_word_eqI)
  apply (auto simp: bit_simps dest: bit_imp_le_length)
  done

lemma decode_ulbits_packet_bits:
  assumes "device d < 2 ^ 24"
  shows "decode_ulbits (packet_bits d) = Some d"
  by (simp add: decode_ulbits_def header_bits [OF assms] extract_packet_bits [OF assms]
      low_byte_packet_bits)

subsection \<open>Reading one frame back\<close>

lemma tolerance_ok_advance [simp]: "tolerance_ok (advance src n) = tolerance_ok src"
  by (simp add: tolerance_ok_def advance_def)

lemma remaining_advance:
  "remaining src = xs @ rest \<Longrightarrow> remaining (advance src (length xs)) = rest"
proof -
  assume a: "remaining src = xs @ rest"
  have "remaining (advance src (length xs)) = drop (length xs) (remaining src)"
    by (simp add: remaining_def advance_def add.commute)
  with a show ?thesis by simp
qed

lemma peek_item_here:
  assumes "remaining src = a # b # rest"
  shows "peek_item src m s 0 \<longleftrightarrow> space_within src s b \<and> mark_within src m a"
proof -
  from assms have d: "drop (index src) (rx_data src) = a # b # rest"
    by (simp add: remaining_def)
  then have a: "rx_data src ! index src = a" by (rule nth_via_drop)
  from d have "drop (Suc (index src)) (rx_data src) = b # rest"
    by (metis drop_Suc list.sel(3) tl_drop)
  then have b: "rx_data src ! Suc (index src) = b" by (rule nth_via_drop)
  have "length (drop (index src) (rx_data src)) \<ge> 2" by (simp add: d)
  then have l: "index src + 1 < length (rx_data src)" by simp
  show ?thesis
    using a b l by (simp add: peek_item_def peek_mark_def peek_space_def is_valid_def)
qed

lemma peek_item_ahead_mark:
  assumes "remaining src = a # b # rest" and "\<not> mark_within src m b"
  shows "\<not> peek_item src m s 1"
proof -
  from assms have d: "drop (index src) (rx_data src) = a # b # rest"
    by (simp add: remaining_def)
  then have "drop (Suc (index src)) (rx_data src) = b # rest"
    by (metis drop_Suc list.sel(3) tl_drop)
  then have b: "rx_data src ! Suc (index src) = b" by (rule nth_via_drop)
  show ?thesis
    using b assms(2) by (simp add: peek_item_def peek_mark_def)
qed

lemma expect_item_hit:
  assumes "remaining src = a # b # rest" and "space_within src s b" and "mark_within src m a"
  shows "expect_item src m s = (True, advance src 2)"
  using peek_item_here [OF assms(1), of m s] assms(2,3) by (simp add: expect_item_def)

lemma expect_item_miss:
  assumes "remaining src = a # b # rest" and "\<not> (mark_within src m a \<and> space_within src s b)"
  shows "expect_item src m s = (False, src)"
  using peek_item_here [OF assms(1), of m s] assms(2) by (auto simp: expect_item_def)

lemma remaining_advance2:
  "remaining src = a # b # rest \<Longrightarrow> remaining (advance src 2) = rest"
  using remaining_advance [of src "[a, b]" rest] by (simp add: numeral_2_eq_2)

lemma length_frame_bits: "length (frame_bits i w) = 2 * (64 - i)"
proof -
  have "\<And>k. length (if bit w (AOK_PACKET_SIZE - k - 1) then pulses AOK_ONE_MARK AOK_ONE_SPACE
                       else pulses AOK_ZERO_MARK AOK_ZERO_SPACE) = 2"
    by (simp add: pulses_def)
  then show ?thesis
    by (simp add: frame_bits_def length_concat comp_def sum_list_triv AOK_PACKET_SIZE_def)
qed

lemma merge_bits_set:
  assumes "i < 64" and "bit w (63 - i)"
  shows "merge_bits (Suc i) (set_bit (63 - i) acc) w = merge_bits i acc w"
proof (rule bit_word_eqI)
  fix n
  assume "n < LENGTH(64)"
  consider "n < 63 - i" | "n = 63 - i" | "63 - i < n" by linarith
  then show "bit (merge_bits (Suc i) (set_bit (63 - i) acc) w) n = bit (merge_bits i acc w) n"
  proof cases
    case 1
    with assms(1) show ?thesis by (auto simp: merge_bits_def bit_simps)
  next
    case 2
    with assms show ?thesis by (auto simp: merge_bits_def bit_simps)
  next
    case 3
    with assms(1) show ?thesis by (auto simp: merge_bits_def bit_simps)
  qed
qed

lemma merge_bits_unset:
  assumes "i < 64" and "\<not> bit w (63 - i)"
  shows "merge_bits (Suc i) (unset_bit (63 - i) acc) w = merge_bits i acc w"
proof (rule bit_word_eqI)
  fix n
  assume "n < LENGTH(64)"
  consider "n < 63 - i" | "n = 63 - i" | "63 - i < n" by linarith
  then show "bit (merge_bits (Suc i) (unset_bit (63 - i) acc) w) n = bit (merge_bits i acc w) n"
  proof cases
    case 1
    with assms(1) show ?thesis by (auto simp: merge_bits_def bit_simps)
  next
    case 2
    with assms show ?thesis by (auto simp: merge_bits_def bit_simps)
  next
    case 3
    with assms(1) show ?thesis by (auto simp: merge_bits_def bit_simps)
  qed
qed

lemma merge_bits_all: "merge_bits 0 0 w = w"
  by (simp add: merge_bits_def take_bit_word_eq_self)

lemma merge_bits_none: "merge_bits 64 acc w = acc"
  by (simp add: merge_bits_def)

lemma decode_packet_loop_frame:
  assumes "tolerance_ok src"
  shows "n = 64 - i \<Longrightarrow> i \<le> 64 \<Longrightarrow> remaining src = frame_bits i w @ rest \<Longrightarrow>
     decode_packet_loop i src acc = (Some (merge_bits i acc w), advance src (2 * n))"
  using assms
proof (induction n arbitrary: i src acc)
  case 0
  then have "i = 64" by simp
  then show ?case
    by (subst decode_packet_loop.simps) (simp add: AOK_PACKET_SIZE_def merge_bits_none advance_def)
next
  case (Suc n)
  then have i: "i < 64" and n: "n = 64 - (i + 1)" and i1: "i + 1 \<le> 64" by simp_all
  have lt: "i < AOK_PACKET_SIZE" using i by (simp add: AOK_PACKET_SIZE_def)
  note tol = \<open>tolerance_ok src\<close> [unfolded tolerance_ok_def]
  show ?case
  proof (cases "bit w (63 - i)")
    case True
    with Suc.prems(3) lt
    have r: "remaining src = int AOK_ONE_MARK # - int AOK_ONE_SPACE # (frame_bits (i + 1) w @ rest)"
      by (simp add: frame_bits_step pulses_def AOK_PACKET_SIZE_def)
    have e: "expect_item src AOK_ONE_MARK AOK_ONE_SPACE = (True, advance src 2)"
      using tol by (intro expect_item_hit [OF r]) simp_all
    have "decode_packet_loop (i + 1) (advance src 2) (set_bit (63 - i) acc)
           = (Some (merge_bits (i + 1) (set_bit (63 - i) acc) w), advance (advance src 2) (2 * n))"
      using Suc.IH [OF n i1 remaining_advance2 [OF r]] \<open>tolerance_ok src\<close> by simp
    then show ?thesis
      using e lt i True
      by (subst decode_packet_loop.simps)
        (simp add: merge_bits_set AOK_PACKET_SIZE_def advance_def)
  next
    case False
    with Suc.prems(3) lt
    have r: "remaining src = int AOK_ZERO_MARK # - int AOK_ZERO_SPACE # (frame_bits (i + 1) w @ rest)"
      by (simp add: frame_bits_step pulses_def AOK_PACKET_SIZE_def)
    have e1: "expect_item src AOK_ONE_MARK AOK_ONE_SPACE = (False, src)"
      using tol by (intro expect_item_miss [OF r]) simp
    have e2: "expect_item src AOK_ZERO_MARK AOK_ZERO_SPACE = (True, advance src 2)"
      using tol by (intro expect_item_hit [OF r]) simp_all
    have "decode_packet_loop (i + 1) (advance src 2) (unset_bit (63 - i) acc)
           = (Some (merge_bits (i + 1) (unset_bit (63 - i) acc) w), advance (advance src 2) (2 * n))"
      using Suc.IH [OF n i1 remaining_advance2 [OF r]] \<open>tolerance_ok src\<close> by simp
    then show ?thesis
      using e1 e2 lt i False
      by (subst decode_packet_loop.simps)
        (simp add: merge_bits_unset AOK_PACKET_SIZE_def advance_def)
  qed
qed

lemma capture_frame_pulses:
  assumes "tolerance_ok src" and "remaining src = frame_pulses w @ rest"
  shows "capture_frame src = (Some w, advance src 132)"
proof -
  note tol = assms(1) [unfolded tolerance_ok_def]
  from assms(2) have r: "remaining src = int AOK_PACKET_PREFIX_MARK # - int AOK_ZERO_SPACE #
      (frame_bits 0 w @ pulses AOK_ONE_MARK AOK_PACKET_SUFFIX_SPACE @ rest)"
    by (simp add: frame_pulses_def pulses_def)
  have e1: "expect_item src AOK_PACKET_PREFIX_MARK AOK_ZERO_SPACE = (True, advance src 2)"
    using tol by (intro expect_item_hit [OF r]) simp_all
  have l: "decode_packet_loop 0 (advance src 2) 0 = (Some w, advance (advance src 2) 128)"
    using decode_packet_loop_frame [OF _ _ _ remaining_advance2 [OF r], of 64 0] assms(1)
    by (simp add: merge_bits_all)
  have "remaining (advance src 2) = frame_bits 0 w @ pulses AOK_ONE_MARK AOK_PACKET_SUFFIX_SPACE @ rest"
    by (rule remaining_advance2 [OF r])
  moreover have "length (frame_bits 0 w) = 128"
    by (rule length_frame_bits [of 0 w, simplified])
  ultimately have r3: "remaining (advance (advance src 2) 128) =
      int AOK_ONE_MARK # - int AOK_PACKET_SUFFIX_SPACE # rest"
    using remaining_advance [of "advance src 2" "frame_bits 0 w"] by (simp add: pulses_def)
  have e3: "expect_item (advance (advance src 2) 128) AOK_ONE_MARK AOK_PACKET_SUFFIX_SPACE
      = (True, advance (advance (advance src 2) 128) 2)"
    using tol by (intro expect_item_hit [OF r3]) (simp_all add: advance_def)
  show ?thesis
    using e1 l e3 by (simp add: capture_frame_def advance_def)
qed

lemma length_frame_pulses: "length (frame_pulses w) = 132"
  by (simp add: frame_pulses_def length_frame_bits pulses_def)

lemma length_concat_replicate: "length (concat (replicate n xs)) = n * length xs"
  by (induction n) simp_all

lemma length_amble: "length amble = 32"
  by (simp add: amble_def length_concat_replicate pulses_def AOK_PRE_POST_ZEROS_def)

lemma length_burst: "length (burst d) = 792"
  by (simp add: burst_def length_concat_replicate length_frame_pulses AOK_REPEATS_def)

lemma tolerance_ok_receive_25: "tolerance_ok (receive 25 raw)"
  by (simp add: tolerance_ok_def receive_def percent_mark_def percent_space_def within_percent_def AOK_consts)

subsection \<open>Scanning a stream\<close>

lemma size_rx_advance: "size_rx (advance src n) = size_rx src"
  by (simp add: size_rx_def advance_def)

lemma index_advance: "index (advance src n) = index src + n"
  by (simp add: advance_def)

lemma decode_skip_items:
  "mark_within src AOK_PACKET_PREFIX_MARK (int AOK_PACKET_PREFIX_MARK) \<Longrightarrow>
   space_within src AOK_ZERO_SPACE (- int AOK_ZERO_SPACE) \<Longrightarrow>
   \<not> mark_within src AOK_PACKET_PREFIX_MARK a \<Longrightarrow> \<not> mark_within src AOK_PACKET_PREFIX_MARK b \<Longrightarrow>
   remaining src = concat (replicate k [a, b]) @ pulses AOK_PACKET_PREFIX_MARK AOK_ZERO_SPACE @ rest \<Longrightarrow>
   int (index src) + 2 * int k \<le> int (size_rx src) - int min_size \<Longrightarrow>
   decode_skip src = Some (advance src (2 * k))"
proof (induction k arbitrary: src)
  case 0
  from 0(5) have r: "remaining src = int AOK_PACKET_PREFIX_MARK # - int AOK_ZERO_SPACE # rest"
    by (simp add: pulses_def)
  have "peek_item src AOK_PACKET_PREFIX_MARK AOK_ZERO_SPACE 0"
    using 0(1,2) by (simp add: peek_item_here [OF r])
  then show ?case
    by (subst decode_skip.simps) (simp add: advance_def)
next
  case (Suc k)
  from Suc.prems(5) have r: "remaining src = a # b #
      (concat (replicate k [a, b]) @ pulses AOK_PACKET_PREFIX_MARK AOK_ZERO_SPACE @ rest)"
    by simp
  have p0: "\<not> peek_item src AOK_PACKET_PREFIX_MARK AOK_ZERO_SPACE 0"
    using Suc.prems(3) by (simp add: peek_item_here [OF r])
  have p1: "\<not> peek_item src AOK_PACKET_PREFIX_MARK AOK_ZERO_SPACE 1"
    using Suc.prems(4) by (intro peek_item_ahead_mark [OF r])
  have c: "\<not> int (size_rx (advance src 2)) - int min_size < int (get_index (advance src 2))"
    using Suc.prems(6) by (simp add: index_advance size_rx_advance get_index_def)
  have "int (index (advance src 2)) + 2 * int k \<le> int (size_rx (advance src 2)) - int min_size"
    using Suc.prems(6) by (simp add: index_advance size_rx_advance)
  then have "decode_skip (advance src 2) = Some (advance (advance src 2) (2 * k))"
    using Suc.prems(1-4)
    by (intro Suc.IH [OF _ _ _ _ remaining_advance2 [OF r]]) (simp_all add: advance_def)
  then show ?case
    using p0 p1 c by (subst decode_skip.simps) (simp add: advance_def Let_def)
qed

lemma decode_skip_amble:
  assumes "tolerance_ok src"
    and "remaining src = concat (replicate k (pulses AOK_ZERO_MARK AOK_ZERO_SPACE))
            @ pulses AOK_PACKET_PREFIX_MARK AOK_ZERO_SPACE @ rest"
    and "int (index src) + 2 * int k \<le> int (size_rx src) - int min_size"
  shows "decode_skip src = Some (advance src (2 * k))"
proof (rule decode_skip_items [OF _ _ _ _ _ assms(3)])
  show "remaining src = concat (replicate k [int AOK_ZERO_MARK, - int AOK_ZERO_SPACE])
      @ pulses AOK_PACKET_PREFIX_MARK AOK_ZERO_SPACE @ rest"
    using assms(2) by (simp only: pulses_def)
qed (use assms(1) in \<open>simp_all add: tolerance_ok_def\<close>)

lemma decode_packet_frame:
  assumes "tolerance_ok src" and "remaining src = frame_pulses w @ rest"
  shows "decode_packet src = (decode_ulbits w, advance src 132)"
  by (simp add: decode_packet_def capture_frame_pulses [OF assms])

lemma decode_skip_at_prefix:
  "peek_item src AOK_PACKET_PREFIX_MARK AOK_ZERO_SPACE 0 \<Longrightarrow> decode_skip src = Some src"
  by (subst decode_skip.simps) simp

lemma peek_item_frame:
  assumes "tolerance_ok src" and "remaining src = frame_pulses w @ rest"
  shows "peek_item src AOK_PACKET_PREFIX_MARK AOK_ZERO_SPACE 0"
proof -
  from assms(2) have r: "remaining src = int AOK_PACKET_PREFIX_MARK # - int AOK_ZERO_SPACE #
      (frame_bits 0 w @ pulses AOK_ONE_MARK AOK_PACKET_SUFFIX_SPACE @ rest)"
    by (simp add: frame_pulses_def pulses_def)
  show ?thesis
    using assms(1) by (simp add: peek_item_here [OF r] tolerance_ok_def)
qed

lemma decode_scan_skip:
  assumes "decode_skip src = Some src1"
    and "int (get_index src) < int (size_rx src) - int min_size"
    and "int (get_index src1) < int (size_rx src1) - int min_size"
  shows "decode_scan src acc = decode_scan src1 acc"
proof -
  from decode_skip_Some [OF assms(1)] have "decode_skip src1 = Some src1"
    by (simp add: decode_skip_at_prefix)
  then have "decode_scan src1 acc =
      (let (packet, src2) = decode_packet src1 in
       decode_scan src2 (case packet of Some p \<Rightarrow> acc @ [p] | None \<Rightarrow> acc))"
    using assms(3) by (subst decode_scan.simps) simp
  moreover have "decode_scan src acc =
      (let (packet, src2) = decode_packet src1 in
       decode_scan src2 (case packet of Some p \<Rightarrow> acc @ [p] | None \<Rightarrow> acc))"
    using assms(1,2) by (subst decode_scan.simps) simp
  ultimately show ?thesis by simp
qed

lemma decode_scan_frames:
  assumes "tolerance_ok src"
  shows "remaining src = concat (map frame_pulses ws) @ rest \<Longrightarrow>
     (ws \<noteq> [] \<longrightarrow> int (index src) + 132 * int (length ws) < int (size_rx src) - int min_size + 132) \<Longrightarrow>
     int (size_rx src) - int min_size \<le> int (index src) + 132 * int (length ws) \<Longrightarrow>
     decode_scan src acc = Some (acc @ List.map_filter decode_ulbits ws)"
  using assms
proof (induction ws arbitrary: src acc)
  case Nil
  then show ?case
    by (subst decode_scan.simps) (simp add: get_index_def)
next
  case (Cons w ws)
  from Cons.prems(1) have r: "remaining src = frame_pulses w @ (concat (map frame_pulses ws) @ rest)"
    by simp
  have c: "int (get_index src) < int (size_rx src) - int min_size"
    using Cons.prems(2) by (simp add: get_index_def)
  have sk: "decode_skip src = Some src"
    by (rule decode_skip_at_prefix [OF peek_item_frame [OF \<open>tolerance_ok src\<close> r]])
  have dp: "decode_packet src = (decode_ulbits w, advance src 132)"
    by (rule decode_packet_frame [OF \<open>tolerance_ok src\<close> r])
  have r': "remaining (advance src 132) = concat (map frame_pulses ws) @ rest"
    using remaining_advance [OF r] by (simp add: length_frame_pulses)
  have step: "decode_scan src acc =
      decode_scan (advance src 132) (case decode_ulbits w of Some p \<Rightarrow> acc @ [p] | None \<Rightarrow> acc)"
    using c sk dp by (subst decode_scan.simps) simp
  have "decode_scan (advance src 132) (case decode_ulbits w of Some p \<Rightarrow> acc @ [p] | None \<Rightarrow> acc)
      = Some ((case decode_ulbits w of Some p \<Rightarrow> acc @ [p] | None \<Rightarrow> acc) @ List.map_filter decode_ulbits ws)"
  proof (rule Cons.IH [OF r'])
    show "ws \<noteq> [] \<longrightarrow> int (index (advance src 132)) + 132 * int (length ws)
        < int (size_rx (advance src 132)) - int min_size + 132"
      using Cons.prems(2) by (simp add: advance_def size_rx_def)
    show "int (size_rx (advance src 132)) - int min_size
        \<le> int (index (advance src 132)) + 132 * int (length ws)"
      using Cons.prems(3) by (simp add: advance_def size_rx_def)
    show "tolerance_ok (advance src 132)"
      using \<open>tolerance_ok src\<close> by simp
  qed
  with step show ?case
    by (simp add: map_filter_simps split: option.splits)
qed

lemma map_filter_replicate:
  "f x = Some y \<Longrightarrow> List.map_filter f (replicate n x) = replicate n y"
  by (induction n) (simp_all add: map_filter_simps)

lemma decode_ambled_frames:
  assumes tol: "tolerance_ok src" and i0: "index src = 0"
    and raw: "rx_data src = amble @ concat (map frame_pulses ws) @ amble"
    and n: "6 \<le> length ws"
  shows "decode src = (case List.map_filter decode_ulbits ws of [] \<Rightarrow> None | p # ps \<Rightarrow> Some p)"
proof -
  have len: "size_rx src = 64 + 132 * length ws"
    by (simp add: size_rx_def raw length_amble length_concat comp_def length_frame_pulses sum_list_triv)
  from n obtain w ws' where ws: "ws = w # ws'" by (cases ws) auto
  have r0: "remaining src = concat (replicate 16 (pulses AOK_ZERO_MARK AOK_ZERO_SPACE))
      @ pulses AOK_PACKET_PREFIX_MARK AOK_ZERO_SPACE
      @ (frame_bits 0 w @ pulses AOK_ONE_MARK AOK_PACKET_SUFFIX_SPACE
           @ concat (map frame_pulses ws') @ amble)"
    by (simp add: remaining_def i0 raw ws amble_def AOK_PRE_POST_ZEROS_def frame_pulses_def)
  have sk: "decode_skip src = Some (advance src (2 * 16))"
    using n by (intro decode_skip_amble [OF tol r0]) (simp add: i0 len min_size_def AOK_PACKET_SIZE_def)
  have r1: "remaining (advance src 32) = concat (map frame_pulses ws) @ amble"
    using remaining_advance [of src amble "concat (map frame_pulses ws) @ amble"]
    by (simp add: remaining_def i0 raw length_amble)
  have "decode_scan src [] = decode_scan (advance src 32) []"
    using sk n
    by (intro decode_scan_skip)
      (simp_all add: get_index_def i0 len min_size_def AOK_PACKET_SIZE_def size_rx_advance
        index_advance)
  also have "\<dots> = Some ([] @ List.map_filter decode_ulbits ws)"
    using tol n
    by (intro decode_scan_frames [OF _ r1])
      (simp_all add: i0 len min_size_def AOK_PACKET_SIZE_def size_rx_advance index_advance)
  finally have "decode_scan src [] = Some (List.map_filter decode_ulbits ws)" by simp
  then show ?thesis
    using n by (simp add: decode_def len min_size_def AOK_consts split: list.splits)
qed

lemma map_filter_append:
  "List.map_filter f (xs @ ys) = List.map_filter f xs @ List.map_filter f ys"
  by (simp add: List.map_filter_def)

lemma decode_ulbits_replicate:
  "device d < 2 ^ 24 \<Longrightarrow>
     List.map_filter decode_ulbits (replicate n (packet_bits d)) = replicate n d"
  by (rule map_filter_replicate [of decode_ulbits, OF decode_ulbits_packet_bits])

lemma receive_fields:
  "rx_data (receive tol raw) = raw" "index (receive tol raw) = 0"
  by (simp_all add: receive_def)

lemma remaining_receive: "remaining (receive tol raw) = raw"
  by (simp add: remaining_def receive_def)

lemma mark_within_advance: "mark_within (advance src n) = mark_within src"
  by (simp add: advance_def)

lemma rx_data_advance: "rx_data (advance src n) = rx_data src"
  by (simp add: advance_def)

lemma peek_item_end: "remaining src = [] \<Longrightarrow> \<not> peek_item src m s off"
  by (simp add: remaining_def peek_item_def peek_mark_def is_valid_def)

lemma peek_item_ahead:
  assumes "remaining src = a # b # c # rest"
  shows "peek_item src m s 1 \<longleftrightarrow> space_within src s c \<and> mark_within src m b"
proof -
  from assms have d: "drop (index src) (rx_data src) = a # b # c # rest"
    by (simp add: remaining_def)
  then have d1: "drop (Suc (index src)) (rx_data src) = b # c # rest"
    by (metis drop_Suc list.sel(3) tl_drop)
  then have b: "rx_data src ! Suc (index src) = b" by (rule nth_via_drop)
  from d1 have "drop (Suc (Suc (index src))) (rx_data src) = c # rest"
    by (metis drop_Suc list.sel(3) tl_drop)
  then have c: "rx_data src ! Suc (Suc (index src)) = c" by (rule nth_via_drop)
  have "length (drop (index src) (rx_data src)) \<ge> 3" by (simp add: d)
  then have l: "index src + 2 < length (rx_data src)" by simp
  show ?thesis
    using b c l by (simp add: peek_item_def peek_mark_def peek_space_def is_valid_def)
qed

lemma decode_skip_noise_bail:
  "\<not> mark_within src AOK_PACKET_PREFIX_MARK a \<Longrightarrow> \<not> mark_within src AOK_PACKET_PREFIX_MARK b \<Longrightarrow>
   remaining src = concat (replicate k [a, b]) \<Longrightarrow> index src \<le> length (rx_data src) \<Longrightarrow>
   decode_skip src = None"
proof (induction k arbitrary: src)
  case 0
  then have e: "remaining src = []" by simp
  with 0(4) have "index src = length (rx_data src)" by (simp add: remaining_def)
  then show ?case
    using peek_item_end [OF e]
    by (subst decode_skip.simps)
      (simp add: Let_def get_index_def size_rx_def index_advance rx_data_advance)
next
  case (Suc k)
  from Suc.prems(3) have r: "remaining src = a # b # concat (replicate k [a, b])" by simp
  have p0: "\<not> peek_item src AOK_PACKET_PREFIX_MARK AOK_ZERO_SPACE 0"
    using Suc.prems(1) by (simp add: peek_item_here [OF r])
  have p1: "\<not> peek_item src AOK_PACKET_PREFIX_MARK AOK_ZERO_SPACE 1"
    using Suc.prems(2) by (intro peek_item_ahead_mark [OF r])
  have "length (remaining src) \<ge> 2" by (simp add: r)
  then have "index (advance src 2) \<le> length (rx_data (advance src 2))"
    by (simp add: remaining_def index_advance rx_data_advance)
  then have "decode_skip (advance src 2) = None"
    using Suc.prems(1,2)
    by (intro Suc.IH [OF _ _ remaining_advance2 [OF r]]) (simp_all add: mark_within_advance)
  then show ?case
    using p0 p1 by (subst decode_skip.simps) (simp add: Let_def)
qed

lemma decode_scan_frame_then_noise:
  assumes "tolerance_ok src"
    and "\<not> mark_within src AOK_PACKET_PREFIX_MARK a" and "\<not> mark_within src AOK_PACKET_PREFIX_MARK b"
    and "remaining src = frame_pulses w @ concat (replicate k [a, b])"
    and "int (index src) + 132 < int (size_rx src) - int min_size"
  shows "decode_scan src acc = None"
proof -
  have c: "int (get_index src) < int (size_rx src) - int min_size"
    using assms(5) by (simp add: get_index_def)
  have sk: "decode_skip src = Some src"
    by (rule decode_skip_at_prefix [OF peek_item_frame [OF assms(1,4)]])
  have dp: "decode_packet src = (decode_ulbits w, advance src 132)"
    by (rule decode_packet_frame [OF assms(1,4)])
  have r: "remaining (advance src 132) = concat (replicate k [a, b])"
    using remaining_advance [OF assms(4)] by (simp add: length_frame_pulses)
  have "length (remaining src) \<ge> 132" by (simp add: assms(4) length_frame_pulses)
  then have "index (advance src 132) \<le> length (rx_data (advance src 132))"
    by (simp add: remaining_def index_advance rx_data_advance)
  then have bail: "decode_skip (advance src 132) = None"
    using assms(2,3) by (intro decode_skip_noise_bail [OF _ _ r]) (simp_all add: mark_within_advance)
  have c2: "int (get_index (advance src 132)) < int (size_rx (advance src 132)) - int min_size"
    using assms(5) by (simp add: get_index_def index_advance size_rx_advance)
  have "decode_scan (advance src 132) acc' = None" for acc'
    using c2 bail by (subst decode_scan.simps) simp
  then show ?thesis
    using c sk dp by (subst decode_scan.simps) simp
qed

lemma length_noise: "length (noise k) = 2 * k"
  by (simp add: noise_def length_concat_replicate pulses_def)

lemma noise_rejected:
  "\<not> mark_within (receive 25 raw) AOK_PACKET_PREFIX_MARK 1000"
  "\<not> mark_within (receive 25 raw) AOK_PACKET_PREFIX_MARK (- 1000)"
  by (simp_all add: receive_def percent_mark_def within_percent_def AOK_consts)


lemma decode_noise_then_frame:
  assumes tol: "tolerance_ok src" and i0: "index src = 0"
    and na: "\<not> mark_within src AOK_PACKET_PREFIX_MARK a"
    and nb: "\<not> mark_within src AOK_PACKET_PREFIX_MARK b"
    and raw: "rx_data src = concat (replicate k [a, b]) @ frame_pulses w"
    and k: "346 \<le> k"
  shows "decode src = decode_ulbits w"
proof -
  have lenk: "length (concat (replicate k [a, b])) = 2 * k"
    by (simp add: length_concat_replicate)
  have len: "size_rx src = 2 * k + 132"
    by (simp add: size_rx_def raw lenk length_frame_pulses)
  have r0: "remaining src = concat (replicate k [a, b])
      @ pulses AOK_PACKET_PREFIX_MARK AOK_ZERO_SPACE
      @ (frame_bits 0 w @ pulses AOK_ONE_MARK AOK_PACKET_SUFFIX_SPACE)"
    by (simp add: remaining_def i0 raw frame_pulses_def)
  have sk: "decode_skip src = Some (advance src (2 * k))"
    using tol na nb
    by (intro decode_skip_items [OF _ _ _ _ r0])
      (simp_all add: tolerance_ok_def i0 len min_size_def AOK_PACKET_SIZE_def)
  have r1: "remaining (advance src (2 * k)) = frame_pulses w @ []"
    using remaining_advance [of src "concat (replicate k [a, b])" "frame_pulses w"]
    by (simp add: remaining_def i0 raw lenk)
  have dp: "decode_packet (advance src (2 * k)) = (decode_ulbits w, advance (advance src (2 * k)) 132)"
    using tol by (intro decode_packet_frame [OF _ r1]) simp
  have stop: "decode_scan (advance (advance src (2 * k)) 132) acc' = Some acc'" for acc'
    by (subst decode_scan.simps)
      (simp add: get_index_def index_advance size_rx_advance i0 len)
  have c: "int (get_index src) < int (size_rx src) - int min_size"
    using k by (simp add: get_index_def i0 len min_size_def AOK_PACKET_SIZE_def)
  have "decode_scan src [] =
      Some (case decode_ulbits w of Some p \<Rightarrow> [] @ [p] | None \<Rightarrow> [])"
    using c sk dp stop by (subst decode_scan.simps) simp
  then show ?thesis
    using k by (simp add: decode_def len min_size_def AOK_consts split: option.splits)
qed

lemma decode_ulbits_iff:
  "decode_ulbits ulbits \<noteq> None \<longleftrightarrow>
     (ucast (drop_bit 56 ulbits) :: 8 word) = AOK_HEADER
     \<and> checksum (extract_fields ulbits) = ucast (ulbits AND 0xff)"
  by (simp add: decode_ulbits_def Let_def)

lemma decode_ulbits_Some:
  "decode_ulbits ulbits = Some p \<Longrightarrow>
     (ucast (drop_bit 56 ulbits) :: 8 word) = AOK_HEADER
     \<and> checksum (extract_fields ulbits) = ucast (ulbits AND 0xff) \<and> p = extract_fields ulbits"
  by (auto simp: decode_ulbits_def Let_def split: if_splits)

lemma decode_packet_capture:
  "capture_frame src = (Some ulbits, src1) \<Longrightarrow> decode_packet src = (decode_ulbits ulbits, src1)"
  by (simp add: decode_packet_def)

lemma decode_packet_Some:
  assumes "fst (decode_packet src) = Some p"
  shows "\<exists>bits. fst (capture_frame src) = Some bits \<and> decode_ulbits bits = Some p"
proof -
  obtain b s where c: "capture_frame src = (b, s)" by (cases "capture_frame src")
  with assms show ?thesis
    by (cases b) (simp_all add: decode_packet_def)
qed


lemma length_encode:
  "length (tx_data (encode empty_sink d)) =
     (if command d = COMMAND_UP \<or> command d = COMMAND_DOWN then 1648 else 856)"
  by (simp add: tx_data_encode empty_sink_def length_amble length_burst)


section \<open>The claims\<close>

text \<open>
  C1. The claim: a stream that passes the length check decodes to the first successfully
  decoded frame, and to nothing only when no frame was decoded; a valid frame followed by
  trailing noise is still returned. The code at the stream made of one valid frame and 346
  noise items (824 pulses): the single-frame decode at the cursor yields the packet, and
  the stream decode yields nothing, the bail-out inside the skip loop returning empty with
  the packet already collected. With the same noise in front of the frame the packet is
  returned.
\<close>

theorem C1_trailing_noise_drops_frame:
  "decode_packet (receive 25 (frame_of \<lparr>device = 0x010203, channel = CHANNEL_1, command = COMMAND_STOP\<rparr> @ noise 346))
     = (Some \<lparr>device = 0x010203, channel = CHANNEL_1, command = COMMAND_STOP\<rparr>,
        advance (receive 25 (frame_of \<lparr>device = 0x010203, channel = CHANNEL_1, command = COMMAND_STOP\<rparr> @ noise 346)) 132)
   \<and> size_rx (receive 25 (frame_of \<lparr>device = 0x010203, channel = CHANNEL_1, command = COMMAND_STOP\<rparr> @ noise 346)) = 824
   \<and> decode (receive 25 (frame_of \<lparr>device = 0x010203, channel = CHANNEL_1, command = COMMAND_STOP\<rparr> @ noise 346)) = None
   \<and> decode (receive 25 (noise 346 @ frame_of \<lparr>device = 0x010203, channel = CHANNEL_1, command = COMMAND_STOP\<rparr>)) = Some \<lparr>device = 0x010203, channel = CHANNEL_1, command = COMMAND_STOP\<rparr>"
proof -
  let ?d = "\<lparr>device = 0x010203, channel = CHANNEL_1, command = COMMAND_STOP\<rparr>"
  let ?src = "receive 25 (frame_of ?d @ noise 346)"
  let ?lead = "receive 25 (noise 346 @ frame_of ?d)"
  have tol: "tolerance_ok ?src" by (rule tolerance_ok_receive_25)
  have r: "remaining ?src = frame_pulses (packet_bits ?d) @ concat (replicate 346 [1000, - 1000])"
    by (simp add: remaining_receive frame_of_pulses noise_def pulses_def)
  have len: "size_rx ?src = 824"
    by (simp add: size_rx_def receive_fields frame_of_pulses length_frame_pulses length_noise)
  have v: "decode_ulbits (packet_bits ?d) = Some ?d"
    by (rule decode_ulbits_packet_bits) simp
  then have dp: "decode_packet ?src = (Some ?d, advance ?src 132)"
    using decode_packet_frame [OF tol r] by simp
  have "decode_scan ?src [] = None"
    by (rule decode_scan_frame_then_noise [OF tol noise_rejected r])
      (simp add: len receive_fields min_size_def AOK_PACKET_SIZE_def)
  then have none: "decode ?src = None" by (simp add: decode_def)
  have "decode ?lead = decode_ulbits (packet_bits ?d)"
    by (rule decode_noise_then_frame [OF tolerance_ok_receive_25 _ noise_rejected, where k = 346])
      (simp_all add: receive_fields frame_of_pulses noise_def pulses_def)
  with v dp len none show ?thesis by simp
qed

text \<open>
  C2. For the packet with device 0x010203, channel 0x0100 (\<open>CHANNEL_1\<close>) and command 0x23
  (\<open>COMMAND_STOP\<close>) the checksum is 0x2A and the 64-bit frame is 0xA30102030100232A; the
  validation of exactly this value yields device 0x010203, channel 0x0100, command 0x23,
  and so does the single-frame decode of the pulses of this value.
\<close>

theorem C2_concrete_frame:
  "checksum \<lparr>device = 0x010203, channel = CHANNEL_1, command = COMMAND_STOP\<rparr> = 0x2A
   \<and> packet_bits \<lparr>device = 0x010203, channel = CHANNEL_1, command = COMMAND_STOP\<rparr>
       = 0xA30102030100232A
   \<and> decode_ulbits 0xA30102030100232A
       = Some \<lparr>device = 0x010203, channel = 0x0100, command = 0x23\<rparr>
   \<and> fst (decode_packet (receive 25 (frame_pulses 0xA30102030100232A)))
       = Some \<lparr>device = 0x010203, channel = 0x0100, command = 0x23\<rparr>"
proof -
  have v: "decode_ulbits 0xA30102030100232A
      = Some \<lparr>device = 0x010203, channel = 0x0100, command = 0x23\<rparr>"
    by (simp add: decode_ulbits_def extract_fields_def checksum_def device_byte_def
        channel_byte_def AOK_HEADER_def)
  have "decode_packet (receive 25 (frame_pulses 0xA30102030100232A))
      = (decode_ulbits 0xA30102030100232A, advance (receive 25 (frame_pulses 0xA30102030100232A)) 132)"
    by (rule decode_packet_frame [where rest = "[]"])
      (simp_all add: tolerance_ok_receive_25 remaining_receive)
  with v show ?thesis
    by (simp add: packet_bits_def checksum_def device_byte_def channel_byte_def CHANNEL_1_def
        COMMAND_STOP_def AOK_HEADER_def)
qed

text \<open>
  C3. Round trip: for every packet whose device fits in 24 bits and whose command is
  neither UP nor DOWN, the stream decode of exactly the pulses that \<open>encode\<close> emits into a
  fresh sink yields a packet equal to it under \<open>operator==\<close>. The source starts at cursor
  0 and its tolerance reads the protocol's symbols apart (\<open>tolerance_ok\<close>).
\<close>

theorem C3_round_trip:
  assumes "device d < 2 ^ 24" and "command d \<noteq> COMMAND_UP" and "command d \<noteq> COMMAND_DOWN"
    and "tolerance_ok src" and "index src = 0" and "rx_data src = tx_data (encode empty_sink d)"
  shows "\<exists>p. decode src = Some p \<and> data_eq p d"
proof -
  have raw: "rx_data src = amble @ concat (map frame_pulses (replicate 6 (packet_bits d))) @ amble"
    using assms(2,3,6)
    by (simp add: tx_data_encode burst_def empty_sink_def AOK_REPEATS_def map_replicate)
  have "List.map_filter decode_ulbits (replicate 6 (packet_bits d)) = replicate 6 d"
    by (rule decode_ulbits_replicate [OF assms(1)])
  then have "decode src = Some d"
    using decode_ambled_frames [OF assms(4,5) raw] by (simp add: numeral_eq_Suc)
  then show ?thesis by (simp add: data_eq_def)
qed

theorem C3_round_trip_witness:
  "\<exists>p. decode (receive 25 (tx_data (encode empty_sink
          \<lparr>device = 0x010203, channel = CHANNEL_1, command = COMMAND_STOP\<rparr>))) = Some p
       \<and> data_eq p \<lparr>device = 0x010203, channel = CHANNEL_1, command = COMMAND_STOP\<rparr>"
proof -
  let ?d = "\<lparr>device = 0x010203, channel = CHANNEL_1, command = COMMAND_STOP\<rparr>"
  have "device ?d < 2 ^ 24" "command ?d \<noteq> COMMAND_UP" "command ?d \<noteq> COMMAND_DOWN"
    by (simp_all add: AOK_commands)
  then show ?thesis
    by (rule C3_round_trip) (simp_all add: tolerance_ok_receive_25 receive_fields)
qed

text \<open>
  C4. The claim: a field wider than its place on the wire is cut to that place, so a
  device with bits above bit 23 gives the frame of the device masked to 24 bits, the top
  byte staying 0xA3. The code at device 0x04000000: \<open>packet_bits\<close> shifts the whole 32-bit
  device by 32 and ors it in, bit 26 lands on bit 58 and the top byte becomes 0xA7; the
  frame differs from the one of the masked device, and \<open>decode_ulbits\<close> rejects it.
\<close>

theorem C4_header_overwritten:
  "packet_bits \<lparr>device = 0x04000000, channel = CHANNEL_1, command = COMMAND_STOP\<rparr>
     = 0xA700000001002324
   \<and> packet_bits \<lparr>device = 0x04000000 AND 0xffffff, channel = CHANNEL_1, command = COMMAND_STOP\<rparr>
     = 0xA300000001002324
   \<and> (ucast (drop_bit 56 (packet_bits
         \<lparr>device = 0x04000000, channel = CHANNEL_1, command = COMMAND_STOP\<rparr>)) :: 8 word) = 0xA7
   \<and> decode_ulbits (packet_bits
         \<lparr>device = 0x04000000, channel = CHANNEL_1, command = COMMAND_STOP\<rparr>) = None"
  by (simp add: packet_bits_def decode_ulbits_def checksum_def device_byte_def channel_byte_def
      CHANNEL_1_def COMMAND_STOP_def AOK_HEADER_def)



text \<open>
  C6. Once the 64 bits of a frame are captured, the single-frame decode succeeds exactly
  when the top byte is 0xA3 and the checksum recomputed over the extracted device, channel
  and command equals the low byte, and then yields the extracted fields; otherwise it
  returns nothing, with the cursor behind the frame, and the scan goes on from there with
  the packets collected so far.
\<close>

theorem C6_frame_validation:
  "(decode_ulbits ulbits \<noteq> None \<longleftrightarrow>
      (ucast (drop_bit 56 ulbits) :: 8 word) = AOK_HEADER
      \<and> checksum (extract_fields ulbits) = ucast (ulbits AND 0xff))
   \<and> (decode_ulbits ulbits \<noteq> None \<longrightarrow> decode_ulbits ulbits = Some (extract_fields ulbits))
   \<and> (capture_frame src = (Some ulbits, src1) \<longrightarrow>
        decode_packet src = (decode_ulbits ulbits, src1))
   \<and> (fst (decode_packet src) = Some p \<longrightarrow>
        (\<exists>bits. fst (capture_frame src) = Some bits
           \<and> (ucast (drop_bit 56 bits) :: 8 word) = AOK_HEADER
           \<and> checksum (extract_fields bits) = ucast (bits AND 0xff)
           \<and> p = extract_fields bits))
   \<and> (int (get_index src0) < int (size_rx src0) - int min_size \<and> decode_skip src0 = Some src
        \<and> capture_frame src = (Some ulbits, src1) \<and> decode_ulbits ulbits = None \<longrightarrow>
        decode_scan src0 packets = decode_scan src1 packets)"
proof (intro conjI impI)
  show "decode_ulbits ulbits \<noteq> None \<longleftrightarrow>
      (ucast (drop_bit 56 ulbits) :: 8 word) = AOK_HEADER
      \<and> checksum (extract_fields ulbits) = ucast (ulbits AND 0xff)"
    by (rule decode_ulbits_iff)
next
  assume "decode_ulbits ulbits \<noteq> None"
  then show "decode_ulbits ulbits = Some (extract_fields ulbits)"
    by (auto dest: decode_ulbits_Some)
next
  assume "capture_frame src = (Some ulbits, src1)"
  then show "decode_packet src = (decode_ulbits ulbits, src1)"
    by (rule decode_packet_capture)
next
  assume "fst (decode_packet src) = Some p"
  from decode_packet_Some [OF this] obtain bits
    where "fst (capture_frame src) = Some bits" "decode_ulbits bits = Some p" by blast
  then show "\<exists>bits. fst (capture_frame src) = Some bits
           \<and> (ucast (drop_bit 56 bits) :: 8 word) = AOK_HEADER
           \<and> checksum (extract_fields bits) = ucast (bits AND 0xff)
           \<and> p = extract_fields bits"
    using decode_ulbits_Some by blast
next
  assume a: "int (get_index src0) < int (size_rx src0) - int min_size \<and> decode_skip src0 = Some src
        \<and> capture_frame src = (Some ulbits, src1) \<and> decode_ulbits ulbits = None"
  then have "decode_packet src = (None, src1)"
    by (simp add: decode_packet_capture)
  with a show "decode_scan src0 packets = decode_scan src1 packets"
    by (subst decode_scan.simps) simp
qed

theorem C6_frame_validation_witness:
  "decode_ulbits 0 = None
   \<and> decode_packet (receive 25 (frame_pulses 0 @ frame_pulses 0))
       = (None, advance (receive 25 (frame_pulses 0 @ frame_pulses 0)) 132)
   \<and> decode_scan (receive 25 (frame_pulses 0 @ frame_pulses 0)) []
       = decode_scan (advance (receive 25 (frame_pulses 0 @ frame_pulses 0)) 132) []
   \<and> decode_ulbits 0xA30102030100232A = Some (extract_fields 0xA30102030100232A)
   \<and> (\<exists>bits. fst (capture_frame (receive 25 (frame_pulses 0xA30102030100232A))) = Some bits
         \<and> (ucast (drop_bit 56 bits) :: 8 word) = AOK_HEADER
         \<and> checksum (extract_fields bits) = ucast (bits AND 0xff)
         \<and> extract_fields 0xA30102030100232A = extract_fields bits)"
proof -
  let ?bad = "receive 25 (frame_pulses 0 @ frame_pulses 0)"
  let ?w = "0xA30102030100232A :: 64 word"
  let ?good = "receive 25 (frame_pulses ?w)"
  have z: "decode_ulbits 0 = None"
    by (simp add: decode_ulbits_def AOK_HEADER_def)
  have cap: "capture_frame ?bad = (Some 0, advance ?bad 132)"
    by (rule capture_frame_pulses) (simp_all add: tolerance_ok_receive_25 remaining_receive)
  have c: "int (get_index ?bad) < int (size_rx ?bad) - int min_size"
    by (simp add: get_index_def size_rx_def receive_fields length_frame_pulses min_size_def
        AOK_PACKET_SIZE_def)
  have sk: "decode_skip ?bad = Some ?bad"
    by (rule decode_skip_at_prefix [OF peek_item_frame])
      (simp_all add: tolerance_ok_receive_25 remaining_receive)
  have ok: "decode_ulbits ?w \<noteq> None"
    by (simp add: decode_ulbits_def extract_fields_def checksum_def device_byte_def
        channel_byte_def AOK_HEADER_def)
  have capg: "capture_frame ?good = (Some ?w, advance ?good 132)"
    by (rule capture_frame_pulses [where rest = "[]"])
      (simp_all add: tolerance_ok_receive_25 remaining_receive)
  from ok obtain q where q: "decode_ulbits ?w = Some q" by blast
  have dg: "fst (decode_packet ?good) = Some (extract_fields ?w)"
    using capg q decode_ulbits_Some [OF q] by (simp add: decode_packet_def)
  note bad = C6_frame_validation [of 0 ?bad "advance ?bad 132" "extract_fields 0" ?bad "[]"]
  note good = C6_frame_validation [of ?w ?good "advance ?good 132" "extract_fields ?w" ?good "[]"]
  from bad z cap c sk have "decode_packet ?bad = (None, advance ?bad 132)"
    and "decode_scan ?bad [] = decode_scan (advance ?bad 132) []"
    by simp_all
  moreover from good ok dg have "decode_ulbits ?w = Some (extract_fields ?w)"
    and "\<exists>bits. fst (capture_frame ?good) = Some bits
         \<and> (ucast (drop_bit 56 bits) :: 8 word) = AOK_HEADER
         \<and> checksum (extract_fields bits) = ucast (bits AND 0xff)
         \<and> extract_fields ?w = extract_fields bits"
    by blast+
  ultimately show ?thesis using z by blast
qed


text \<open>
  C7. The claim: when the prefix does not match at the cursor and matches one pulse
  ahead, the stream decode advances by one pulse and recovers the packet. The code at the
  stream made of one extra pulse, a valid frame and 346 noise items (825 pulses): the skip
  loop advances by exactly one pulse, the single-frame decode there yields the packet, and
  the stream decode yields nothing, through the same bail-out as in C1.
\<close>

theorem C7_realigned_frame_dropped:
  "decode_skip (receive 25 (1000 # frame_of \<lparr>device = 0x010203, channel = CHANNEL_1, command = COMMAND_STOP\<rparr> @ noise 346))
     = Some (advance (receive 25 (1000 # frame_of \<lparr>device = 0x010203, channel = CHANNEL_1, command = COMMAND_STOP\<rparr> @ noise 346)) 1)
   \<and> decode_packet (advance (receive 25 (1000 # frame_of \<lparr>device = 0x010203, channel = CHANNEL_1, command = COMMAND_STOP\<rparr> @ noise 346)) 1)
     = (Some \<lparr>device = 0x010203, channel = CHANNEL_1, command = COMMAND_STOP\<rparr>,
        advance (receive 25 (1000 # frame_of \<lparr>device = 0x010203, channel = CHANNEL_1, command = COMMAND_STOP\<rparr> @ noise 346)) 133)
   \<and> size_rx (receive 25 (1000 # frame_of \<lparr>device = 0x010203, channel = CHANNEL_1, command = COMMAND_STOP\<rparr> @ noise 346)) = 825
   \<and> decode (receive 25 (1000 # frame_of \<lparr>device = 0x010203, channel = CHANNEL_1, command = COMMAND_STOP\<rparr> @ noise 346))
     = None"
proof -
  let ?d = "\<lparr>device = 0x010203, channel = CHANNEL_1, command = COMMAND_STOP\<rparr>"
  let ?src = "receive 25 (1000 # frame_of ?d @ noise 346)"
  let ?rest = "frame_bits 0 (packet_bits ?d) @ pulses AOK_ONE_MARK AOK_PACKET_SUFFIX_SPACE @ noise 346"
  have tol: "tolerance_ok ?src" by (rule tolerance_ok_receive_25)
  note tolu = tol [unfolded tolerance_ok_def]
  have len: "size_rx ?src = 825"
    by (simp add: size_rx_def receive_fields frame_of_pulses length_frame_pulses length_noise)
  have r: "remaining ?src = 1000 # int AOK_PACKET_PREFIX_MARK # - int AOK_ZERO_SPACE # ?rest"
    by (simp add: remaining_receive frame_of_pulses frame_pulses_def pulses_def)
  have p0: "\<not> peek_item ?src AOK_PACKET_PREFIX_MARK AOK_ZERO_SPACE 0"
    using noise_rejected(1) by (simp add: peek_item_here [OF r])
  have p1: "peek_item ?src AOK_PACKET_PREFIX_MARK AOK_ZERO_SPACE 1"
    by (rule peek_item_ahead [OF r, THEN iffD2]) (use tolu in simp)
  have r1: "remaining (advance ?src 1) = frame_pulses (packet_bits ?d) @ concat (replicate 346 [1000, - 1000])"
    using remaining_advance [of ?src "[1000]" "frame_of ?d @ noise 346"]
    by (simp add: remaining_receive frame_of_pulses noise_def pulses_def)
  have tol1: "tolerance_ok (advance ?src 1)" using tol by simp
  have at: "decode_skip (advance ?src 1) = Some (advance ?src 1)"
    by (rule decode_skip_at_prefix [OF peek_item_frame [OF tol1 r1]])
  have c1: "\<not> int (size_rx (advance ?src 1)) - int min_size < int (get_index (advance ?src 1))"
    by (simp add: size_rx_advance len get_index_def index_advance receive_fields min_size_def
        AOK_PACKET_SIZE_def)
  have sk: "decode_skip ?src = Some (advance ?src 1)"
    using p0 p1 c1 at by (subst decode_skip.simps) (simp add: Let_def)
  have "decode_ulbits (packet_bits ?d) = Some ?d"
    by (rule decode_ulbits_packet_bits) simp
  then have dp: "decode_packet (advance ?src 1) = (Some ?d, advance ?src 133)"
    using decode_packet_frame [OF tol1 r1] by (simp add: advance_def)
  have "decode_scan ?src [] = decode_scan (advance ?src 1) []"
    by (rule decode_scan_skip [OF sk])
      (simp_all add: get_index_def size_rx_advance index_advance len receive_fields min_size_def
        AOK_PACKET_SIZE_def)
  also have "\<dots> = None"
    using noise_rejected [of "1000 # frame_of ?d @ noise 346"]
    by (intro decode_scan_frame_then_noise [OF tol1 _ _ r1])
      (simp_all add: mark_within_advance size_rx_advance index_advance len receive_fields
        min_size_def AOK_PACKET_SIZE_def)
  finally have "decode ?src = None" by (simp add: decode_def)
  with sk dp len show ?thesis by simp
qed

text \<open>
  C8. A stream with fewer raw pulses than the minimum (\<open>min_size\<close> times the repeat count,
  plus the amble allowance) decodes to nothing, whatever its pulses and its tolerance are:
  the outcome is fixed before any pulse is looked at.
\<close>

theorem C8_short_stream:
  "size_rx src < min_size * AOK_REPEATS + AOK_PRE_POST_ZEROS * 2 \<Longrightarrow> decode src = None"
  by (simp add: decode_def)

theorem C8_short_stream_witness:
  "size_rx (receive 25 (frame_of \<lparr>device = 0x010203, channel = CHANNEL_1, command = COMMAND_STOP\<rparr>))
     < min_size * AOK_REPEATS + AOK_PRE_POST_ZEROS * 2
   \<and> decode (receive 25 (frame_of \<lparr>device = 0x010203, channel = CHANNEL_1, command = COMMAND_STOP\<rparr>))
     = None"
proof -
  let ?src = "receive 25 (frame_of \<lparr>device = 0x010203, channel = CHANNEL_1, command = COMMAND_STOP\<rparr>)"
  have h: "size_rx ?src < min_size * AOK_REPEATS + AOK_PRE_POST_ZEROS * 2"
    by (simp add: size_rx_def receive_fields frame_of_pulses length_frame_pulses min_size_def
        AOK_consts)
  from h C8_short_stream [OF h] show ?thesis by simp
qed

text \<open>
  C9. For every packet whose device fits in 24 bits and whose command is UP or DOWN, the
  stream decode of exactly the pulses that \<open>encode\<close> emits yields a packet equal to the
  original one, with the original command and not the synthesized RELEASE.
\<close>

theorem C9_round_trip_up_down:
  assumes "device d < 2 ^ 24" and "command d = COMMAND_UP \<or> command d = COMMAND_DOWN"
    and "tolerance_ok src" and "index src = 0" and "rx_data src = tx_data (encode empty_sink d)"
  shows "\<exists>p. decode src = Some p \<and> data_eq p d \<and> command p \<noteq> COMMAND_RELEASE"
proof -
  let ?r = "d\<lparr>command := COMMAND_RELEASE\<rparr>"
  have raw: "rx_data src = amble @ concat (map frame_pulses
       (replicate 6 (packet_bits d) @ replicate 6 (packet_bits ?r))) @ amble"
    using assms(2,5)
    by (simp add: tx_data_encode burst_def empty_sink_def AOK_REPEATS_def map_replicate)
  have "device ?r < 2 ^ 24" using assms(1) by simp
  then have "List.map_filter decode_ulbits (replicate 6 (packet_bits d) @ replicate 6 (packet_bits ?r))
      = replicate 6 d @ replicate 6 ?r"
    by (simp add: map_filter_append decode_ulbits_replicate assms(1))
  then have "decode src = Some d"
    using decode_ambled_frames [OF assms(3,4) raw] by (simp add: numeral_eq_Suc)
  then show ?thesis using assms(2) by (auto simp: data_eq_def AOK_commands)
qed

theorem C9_round_trip_up_down_witness:
  "\<exists>p. decode (receive 25 (tx_data (encode empty_sink
          \<lparr>device = 0x010203, channel = CHANNEL_1, command = COMMAND_UP\<rparr>))) = Some p
       \<and> data_eq p \<lparr>device = 0x010203, channel = CHANNEL_1, command = COMMAND_UP\<rparr>
       \<and> command p \<noteq> COMMAND_RELEASE"
proof -
  let ?d = "\<lparr>device = 0x010203, channel = CHANNEL_1, command = COMMAND_UP\<rparr>"
  have "device ?d < 2 ^ 24" "command ?d = COMMAND_UP \<or> command ?d = COMMAND_DOWN"
    by simp_all
  then show ?thesis
    by (rule C9_round_trip_up_down) (simp_all add: tolerance_ok_receive_25 receive_fields)
qed

text \<open>
  C10. The threshold of the length check is 824 raw pulses, 132 for each of 6 frames plus
  32: below it the decode returns nothing, from it on the result is that of the scan, whose
  loop is entered when the cursor is at 0. The 32 are half of the 64 pulses of preamble and
  postamble, so the threshold is below the 856 pulses of one complete burst and below what
  \<open>encode\<close> emits for any packet.
\<close>

theorem C10_threshold:
  "min_size = 132 \<and> min_size * AOK_REPEATS + AOK_PRE_POST_ZEROS * 2 = 824
   \<and> (size_rx src < 824 \<longrightarrow> decode src = None)
   \<and> (824 \<le> size_rx src \<longrightarrow>
        decode src = (case decode_scan src [] of None \<Rightarrow> None
                      | Some packets \<Rightarrow> if packets = [] then None else Some (hd packets)))
   \<and> (824 \<le> size_rx src \<and> index src = 0 \<longrightarrow>
        int (get_index src) < int (size_rx src) - int min_size)
   \<and> AOK_PRE_POST_ZEROS * 2 = 32 \<and> length amble + length amble = 64
   \<and> length (amble @ burst d @ amble) = 856
   \<and> 824 < length (tx_data (encode empty_sink d))"
  by (simp add: min_size_def AOK_consts decode_def get_index_def length_amble length_burst
      length_encode)


theorem C10_threshold_witness:
  "size_rx (receive 25 (tl (noise 346 @ frame_of \<lparr>device = 0x010203, channel = CHANNEL_1, command = COMMAND_STOP\<rparr>))) = 823
   \<and> decode (receive 25 (tl (noise 346 @ frame_of \<lparr>device = 0x010203, channel = CHANNEL_1, command = COMMAND_STOP\<rparr>))) = None
   \<and> size_rx (receive 25 (noise 346 @ frame_of \<lparr>device = 0x010203, channel = CHANNEL_1, command = COMMAND_STOP\<rparr>)) = 824
   \<and> decode (receive 25 (noise 346 @ frame_of \<lparr>device = 0x010203, channel = CHANNEL_1, command = COMMAND_STOP\<rparr>)) =
       (case decode_scan (receive 25 (noise 346 @ frame_of \<lparr>device = 0x010203, channel = CHANNEL_1, command = COMMAND_STOP\<rparr>)) [] of None \<Rightarrow> None
        | Some packets \<Rightarrow> if packets = [] then None else Some (hd packets))
   \<and> int (get_index (receive 25 (noise 346 @ frame_of \<lparr>device = 0x010203, channel = CHANNEL_1, command = COMMAND_STOP\<rparr>)))
       < int (size_rx (receive 25 (noise 346 @ frame_of \<lparr>device = 0x010203, channel = CHANNEL_1, command = COMMAND_STOP\<rparr>))) - int min_size"
proof -
  let ?long = "receive 25 (noise 346 @ frame_of \<lparr>device = 0x010203, channel = CHANNEL_1, command = COMMAND_STOP\<rparr>)"
  let ?short = "receive 25 (tl (noise 346 @ frame_of \<lparr>device = 0x010203, channel = CHANNEL_1, command = COMMAND_STOP\<rparr>))"
  have l: "size_rx ?long = 824"
    by (simp add: size_rx_def receive_fields frame_of_pulses length_frame_pulses length_noise)
  have s: "size_rx ?short = 823"
    by (simp add: size_rx_def receive_fields frame_of_pulses length_frame_pulses length_noise)
  from C10_threshold [of ?short] s have "decode ?short = None" by simp
  moreover from C10_threshold [of ?long] l
  have "decode ?long = (case decode_scan ?long [] of None \<Rightarrow> None
        | Some packets \<Rightarrow> if packets = [] then None else Some (hd packets))"
    and "int (get_index ?long) < int (size_rx ?long) - int min_size"
    by (simp_all add: receive_fields)
  ultimately show ?thesis using l s by simp
qed

end
